theory Spec2Isabelle
  imports Main
begin

section \<open>The CLI engine of lib/cli-engine.js\<close>

text \<open>
  The module exports one class, \<open>CLIEngine\<close>, with a constructor and the method
  \<open>executeOnFiles\<close>, and has two private helpers, \<open>isExcluded\<close> and
  \<open>processFile\<close>. Everything else it touches is a collaborator it calls: Node's
  \<open>fs\<close> and \<open>path\<close>, the glob matcher \<open>minimatch\<close>, and the modules
  \<open>./rules\<close>, \<open>./eslint\<close>, \<open>./util/traverse\<close> and \<open>./config\<close>.
  The collaborators are parameters of the model; the four functions of the file are
  translated line by line. Calls of \<open>debug\<close> only log and are left out.
\<close>

subsection \<open>Data\<close>

text \<open>A JavaScript exception, kept by its message.\<close>

datatype error = Thrown string

record LintMessage =
  fatal :: bool
  message :: string

record LintResult =
  filePath :: string
  messages :: "LintMessage list"

record RunReport =
  results :: "LintResult list"

text \<open>
  \<open>CLIEngineOptions\<close>, as the typedef of the file lists it. A rule's setting is kept
  as text.
\<close>

record CLIEngineOptions =
  configFile :: "string option"
  reset :: bool
  rulePaths :: "string list"
  useEslintrc :: bool
  envs :: "string list"
  globals :: "string list"
  rules :: "(string \<times> string) list"
  ignore :: bool
  ignorePath :: "string option"

text \<open>
  The object a caller hands to the constructor: any property may be absent
  (\<open>None\<close>), and then the default shows through the prototype chain.
\<close>

record GivenOptions =
  given_configFile :: "string option option"
  given_reset :: "bool option"
  given_rulePaths :: "string list option"
  given_useEslintrc :: "bool option"
  given_envs :: "string list option"
  given_globals :: "string list option"
  given_rules :: "(string \<times> string) list option"
  given_ignore :: "bool option"
  given_ignorePath :: "string option option"

record CLIEngine =
  options :: CLIEngineOptions

text \<open>
  The calls a run makes that the properties below speak about: entering
  \<open>processFile\<close> for a file name, \<open>eslint.reset()\<close>, and \<open>eslint.verify\<close> with the
  file name it is given as third argument.
\<close>

datatype event = ProcessFile string | Reset | Verify string

text \<open>
  What a run changes: the state of the shared linter object \<open>eslint\<close>, and the log of
  calls made so far. An exception leaves the state as it was when it was thrown, so every
  operation returns the state next to its outcome.
\<close>

record 'e state =
  engine :: 'e
  trace :: "event list"

subsection \<open>Collaborators\<close>

text \<open>
  Third-party and Node functions are taken as they are called:
  \<^item> \<open>minimatch name pattern\<close> answers whether the pattern matches, or throws;
  \<^item> \<open>path_extname\<close> and \<open>path_resolve\<close> are \<open>path.extname\<close> and \<open>path.resolve\<close>;
  \<^item> \<open>fs_existsSync\<close> is \<open>fs.existsSync\<close>, which never throws;
  \<^item> \<open>fs_readFileSync\<close> is \<open>fs.readFileSync(_, "utf8")\<close>, which throws when the file
    cannot be read.
\<close>

text \<open>
  Modelled from the spec: the modules \<open>./util/traverse\<close>, \<open>./config\<close> and \<open>./eslint\<close>
  are not among the sources. Following section 6 of the specification,
  \<^item> \<open>traverse files\<close> is the finite sequence of file names, in order, with which
    the tree walker calls its callback for the input paths \<open>files\<close>;
  \<^item> \<open>getExclusions\<close> and \<open>getConfig\<close> are the two methods of the configuration helper
    built from the options, deterministic for a fixed file system;
  \<^item> \<open>eslint_reset\<close> and \<open>eslint_verify\<close> are the two methods of the linter, acting
    on its state; \<open>eslint_verify e text config filename\<close> returns the messages and the
    state it leaves.
\<close>

record ('c, 'e) collaborators =
  minimatch :: "string \<Rightarrow> string \<Rightarrow> error + bool"
  path_extname :: "string \<Rightarrow> string"
  path_resolve :: "string \<Rightarrow> string"
  fs_existsSync :: "string \<Rightarrow> bool"
  fs_readFileSync :: "string \<Rightarrow> error + string"
  traverse :: "string list \<Rightarrow> string list"
  getExclusions :: "CLIEngineOptions \<Rightarrow> string list"
  getConfig :: "CLIEngineOptions \<Rightarrow> string \<Rightarrow> 'c"
  eslint_reset :: "'e \<Rightarrow> 'e"
  eslint_verify :: "'e \<Rightarrow> string \<Rightarrow> 'c \<Rightarrow> string \<Rightarrow> LintMessage list \<times> 'e"

subsection \<open>isExcluded\<close>

text \<open>
  \<open>String.prototype.replace\<close> with a string as its pattern replaces the first
  occurrence only.
\<close>

fun replace :: "char \<Rightarrow> char \<Rightarrow> string \<Rightarrow> string" where
  "replace a b [] = []"
| "replace a b (c # cs) = (if c = a then b # cs else c # replace a b cs)"

text \<open>
  \<open>Array.prototype.some\<close> with the callback of \<open>isExcluded\<close>: the patterns are tried
  in order, the first match ends the search, and an exception of the matcher leaves it.
\<close>

fun some :: "(string \<Rightarrow> string \<Rightarrow> error + bool) \<Rightarrow> string \<Rightarrow> string list \<Rightarrow> error + bool" where
  "some mm name [] = Inr False"
| "some mm name (exclusion # rest) =
     (case mm name exclusion of
        Inl e \<Rightarrow> Inl e
      | Inr result \<Rightarrow> if result then Inr True else some mm name rest)"

definition isExcluded ::
  "(string \<Rightarrow> string \<Rightarrow> error + bool) \<Rightarrow> string \<Rightarrow> string list \<Rightarrow> error + bool" where
  "isExcluded mm name exclude = some mm (replace (CHR 0x5C) (CHR ''/'') name) exclude"

subsection \<open>processFile\<close>

definition notFound :: "string \<Rightarrow> LintMessage" where
  "notFound path =
     \<lparr>fatal = True,
      message = ''Could not find file at '' @ [CHR 0x27] @ path @ [CHR 0x27] @ ''.''\<rparr>"

definition processFile ::
  "('c, 'e) collaborators \<Rightarrow> CLIEngineOptions \<Rightarrow> string \<Rightarrow> 'e state
    \<Rightarrow> (error + LintResult) \<times> 'e state" where
  "processFile env opts filename s =
     (let s1 = \<lparr>engine = eslint_reset env (engine s),
                trace = trace s @ [ProcessFile filename, Reset]\<rparr>;
          path = path_resolve env filename
      in if fs_existsSync env path then
           (let config = getConfig env opts path
            in case fs_readFileSync env (path_resolve env filename) of
                 Inl e \<Rightarrow> (Inl e, s1)
               | Inr text \<Rightarrow>
                   (case eslint_verify env (engine s1) text config filename of
                      (msgs, e') \<Rightarrow>
                        (Inr \<lparr>filePath = filename, messages = msgs\<rparr>,
                         \<lparr>engine = e', trace = trace s1 @ [Verify filename]\<rparr>)))
         else (Inr \<lparr>filePath = filename, messages = [notFound path]\<rparr>, s1))"

subsection \<open>The constructor\<close>

definition defaultOptions :: CLIEngineOptions where
  "defaultOptions =
     \<lparr>configFile = None, reset = False, rulePaths = [], useEslintrc = True, envs = [],
      globals = [], rules = [], ignore = True, ignorePath = None\<rparr>"

text \<open>\<open>assign(Object.create(defaultOptions), options || {})\<close>, read property by property.\<close>

definition assign :: "CLIEngineOptions \<Rightarrow> GivenOptions option \<Rightarrow> CLIEngineOptions" where
  "assign d given =
     (case given of
        None \<Rightarrow> d
      | Some g \<Rightarrow>
          \<lparr>configFile = (case given_configFile g of None \<Rightarrow> configFile d | Some v \<Rightarrow> v),
           reset = (case given_reset g of None \<Rightarrow> reset d | Some v \<Rightarrow> v),
           rulePaths = (case given_rulePaths g of None \<Rightarrow> rulePaths d | Some v \<Rightarrow> v),
           useEslintrc = (case given_useEslintrc g of None \<Rightarrow> useEslintrc d | Some v \<Rightarrow> v),
           envs = (case given_envs g of None \<Rightarrow> envs d | Some v \<Rightarrow> v),
           globals = (case given_globals g of None \<Rightarrow> globals d | Some v \<Rightarrow> v),
           rules = (case given_rules g of None \<Rightarrow> rules d | Some v \<Rightarrow> v),
           ignore = (case given_ignore g of None \<Rightarrow> ignore d | Some v \<Rightarrow> v),
           ignorePath = (case given_ignorePath g of None \<Rightarrow> ignorePath d | Some v \<Rightarrow> v)\<rparr>)"

text \<open>
  Modelled from the spec: \<open>./rules\<close> is not among the sources. \<open>load dir g\<close> registers
  the rules of a directory in the registry \<open>g\<close>, shared by the whole process, and fails
  with a load error when the directory is absent or holds an invalid rule; either way
  it returns the registry it leaves. It is the first argument of \<open>forEach_load\<close>, which
  is \<open>rulePaths.forEach\<close>: the directories are loaded in order and the first exception
  leaves the loop. An array is truthy even when empty, so the test
  \<open>if (this.options.rulePaths)\<close> passes for every list of directories.
\<close>

fun forEach_load ::
  "(string \<Rightarrow> 'g \<Rightarrow> (error + unit) \<times> 'g) \<Rightarrow> string list \<Rightarrow> 'g \<Rightarrow> (error + unit) \<times> 'g" where
  "forEach_load load [] g = (Inr (), g)"
| "forEach_load load (rulesdir # rest) g =
     (case load rulesdir g of
        (Inl e, g') \<Rightarrow> (Inl e, g')
      | (Inr u, g') \<Rightarrow> forEach_load load rest g')"

definition new_CLIEngine ::
  "(string \<Rightarrow> 'g \<Rightarrow> (error + unit) \<times> 'g) \<Rightarrow> GivenOptions option \<Rightarrow> 'g
    \<Rightarrow> (error + CLIEngine) \<times> 'g" where
  "new_CLIEngine load given g =
     (let this = \<lparr>options = assign defaultOptions given\<rparr>
      in case forEach_load load (rulePaths (options this)) g of
           (Inl e, g') \<Rightarrow> (Inl e, g')
         | (Inr u, g') \<Rightarrow> (Inr this, g'))"

subsection \<open>executeOnFiles\<close>

definition ignoredMessage :: LintMessage where
  "ignoredMessage =
     \<lparr>fatal = False,
      message = ''File ignored because of your .eslintignore file. Use --no-ignore to override.''\<rparr>"

text \<open>
  The callback handed to \<open>traverse\<close>, for one file name. \<open>exclusions\<close> is what
  \<open>configHelper.getExclusions()\<close> returned before the traversal, \<open>files\<close> the argument of
  \<open>executeOnFiles\<close>, and \<open>acc\<close> the array \<open>results\<close> so far. The inner \<open>case\<close> is the
  condition \<open>!this.options.ignore || !isExcluded(filename, exclusions)\<close>: its value, or
  the exception thrown while evaluating it. \<open>||\<close> evaluates its second operand only when
  the first is false, so the matcher is not called when the option \<open>ignore\<close> is off.
  \<open>files.indexOf(filename) > -1\<close> is membership in \<open>files\<close>.
\<close>

definition callback ::
  "('c, 'e) collaborators \<Rightarrow> CLIEngine \<Rightarrow> string list \<Rightarrow> string list \<Rightarrow> string
    \<Rightarrow> LintResult list \<Rightarrow> 'e state \<Rightarrow> (error + LintResult list) \<times> 'e state" where
  "callback env this exclusions files filename acc s =
     (if path_extname env filename = ''.js'' then
        (case (if \<not> ignore (options this) then Inr True
               else (case isExcluded (minimatch env) filename exclusions of
                       Inl e \<Rightarrow> Inl e
                     | Inr excluded \<Rightarrow> Inr (\<not> excluded))) of
           Inl e \<Rightarrow> (Inl e, s)
         | Inr True \<Rightarrow>
             (case processFile env (options this) filename s of
                (Inl e, s') \<Rightarrow> (Inl e, s')
              | (Inr r, s') \<Rightarrow> (Inr (acc @ [r]), s'))
         | Inr False \<Rightarrow>
             if filename \<in> set files
             then (Inr (acc @ [\<lparr>filePath = filename, messages = [ignoredMessage]\<rparr>]), s)
             else (Inr acc, s))
      else (Inr acc, s))"

text \<open>The walker calls the callback for each file name in turn; an exception leaves it.\<close>

fun forEach_file ::
  "('c, 'e) collaborators \<Rightarrow> CLIEngine \<Rightarrow> string list \<Rightarrow> string list \<Rightarrow> string list
    \<Rightarrow> LintResult list \<Rightarrow> 'e state \<Rightarrow> (error + LintResult list) \<times> 'e state" where
  "forEach_file env this exclusions files [] acc s = (Inr acc, s)"
| "forEach_file env this exclusions files (filename # rest) acc s =
     (case callback env this exclusions files filename acc s of
        (Inl e, s') \<Rightarrow> (Inl e, s')
      | (Inr acc', s') \<Rightarrow> forEach_file env this exclusions files rest acc' s')"

definition executeOnFiles ::
  "('c, 'e) collaborators \<Rightarrow> CLIEngine \<Rightarrow> string list \<Rightarrow> 'e state
    \<Rightarrow> (error + RunReport) \<times> 'e state" where
  "executeOnFiles env this files s =
     (let exclusions = getExclusions env (options this)
      in case forEach_file env this exclusions files (traverse env files) [] s of
           (Inl e, s') \<Rightarrow> (Inl e, s')
         | (Inr acc, s') \<Rightarrow> (Inr \<lparr>results = acc\<rparr>, s'))"

subsection \<open>Properties of a run\<close>

text \<open>
  The results a call of \<open>executeOnFiles\<close> hands to its caller: those of the report, and
  none when it throws.
\<close>

definition reported :: "error + RunReport \<Rightarrow> LintResult list" where
  "reported out = (case out of Inl e \<Rightarrow> [] | Inr report \<Rightarrow> results report)"

text \<open>
  A log of calls pairs each \<open>verify\<close> with a \<open>reset\<close>: reading it from the left,
  \<open>fresh\<close> says whether \<open>reset\<close> has been called since the last \<open>verify\<close>, and every
  \<open>verify\<close> must find it so.
\<close>

fun reset_before_verify :: "bool \<Rightarrow> event list \<Rightarrow> bool" where
  "reset_before_verify fresh [] = True"
| "reset_before_verify fresh (Reset # es) = reset_before_verify True es"
| "reset_before_verify fresh (Verify n # es) = (fresh \<and> reset_before_verify False es)"
| "reset_before_verify fresh (ProcessFile n # es) = reset_before_verify fresh es"

text \<open>
  The linter is deterministic once reset: what \<open>verify\<close> answers right after \<open>reset\<close>
  depends on its arguments only, not on what the linter did before.
\<close>

definition reset_clears :: "('c, 'e) collaborators \<Rightarrow> bool" where
  "reset_clears env \<longleftrightarrow>
     (\<forall>e e' text config name.
        fst (eslint_verify env (eslint_reset env e) text config name) =
        fst (eslint_verify env (eslint_reset env e') text config name))"

text \<open>
  The specification's step 2b alone, for a run without exclusion: each path goes through
  the File Processor in turn and its result is appended.
\<close>

fun processEach ::
  "('c, 'e) collaborators \<Rightarrow> CLIEngineOptions \<Rightarrow> string list \<Rightarrow> LintResult list \<Rightarrow> 'e state
    \<Rightarrow> (error + LintResult list) \<times> 'e state" where
  "processEach env opts [] acc s = (Inr acc, s)"
| "processEach env opts (filename # rest) acc s =
     (case processFile env opts filename s of
        (Inl e, s') \<Rightarrow> (Inl e, s')
      | (Inr r, s') \<Rightarrow> processEach env opts rest (acc @ [r]) s')"

subsection \<open>A small installation for examples\<close>

text \<open>A matcher for patterns without glob characters: such a pattern matches itself only.\<close>

definition literal_match :: "string \<Rightarrow> string \<Rightarrow> error + bool" where
  "literal_match name pattern = Inr (name = pattern)"


text \<open>
  The extension as \<open>path.extname\<close> gives it: the text from the last dot of the last
  path segment, and nothing when the segment has no dot or only a leading one.
\<close>

definition demo_extname :: "string \<Rightarrow> string" where
  "demo_extname p =
     (let base = rev (takeWhile (\<lambda>c. c \<noteq> CHR ''/'') (rev p));
          tail = rev (takeWhile (\<lambda>c. c \<noteq> CHR ''.'') (rev base))
      in if length tail = length base \<or> Suc (length tail) = length base then []
         else CHR ''.'' # tail)"

definition demo_disk :: "(string \<times> string) list" where
  "demo_disk =
     [(''/work/a.js'', ''var a = 1;''),
      (''/work/b.js'', ''eval(x); with (y) {}''),
      (''/work/c.js'', ''generated''),
      (''/work/lib/x.js'', ''var x;''),
      (''/work/lib/vendor.js'', ''minified''),
      (''/work/notes.txt'', ''to do'')]"

text \<open>
  A linter whose state counts the calls of \<open>verify\<close> since the last \<open>reset\<close>, and which
  adds a message of its own when it is asked to verify without having been reset.
\<close>

definition demo_verify :: "nat \<Rightarrow> string \<Rightarrow> string \<Rightarrow> string \<Rightarrow> LintMessage list \<times> nat" where
  "demo_verify e text config filename =
     ((if e = 0 then [] else [\<lparr>fatal = False, message = ''left over''\<rparr>]) @
      (if text = ''eval(x); with (y) {}''
       then [\<lparr>fatal = False, message = ''eval can be harmful.''\<rparr>,
             \<lparr>fatal = False, message = ''Unexpected use of with statement.''\<rparr>]
       else []),
      Suc e)"

definition demo_env :: "(string, nat) collaborators" where
  "demo_env =
     \<lparr>minimatch = literal_match,
      path_extname = demo_extname,
      path_resolve = (\<lambda>p. ''/work/'' @ p),
      fs_existsSync = (\<lambda>p. map_of demo_disk p \<noteq> None),
      fs_readFileSync =
        (\<lambda>p. case map_of demo_disk p of None \<Rightarrow> Inl (Thrown ''ENOENT'') | Some t \<Rightarrow> Inr t),
      traverse =
        (\<lambda>files. concat (map (\<lambda>p. if p = ''lib'' then [''lib/x.js'', ''lib/vendor.js''] else [p]) files)),
      getExclusions = (\<lambda>opts. [''c.js'', ''lib/vendor.js'', ''notes.txt'', ''gone.js'']),
      getConfig = (\<lambda>opts p. ''eslint.json''),
      eslint_reset = (\<lambda>e. 0),
      eslint_verify = demo_verify\<rparr>"

definition demo_cli :: CLIEngine where
  "demo_cli = \<lparr>options = defaultOptions\<rparr>"

definition demo_no_ignore :: CLIEngine where
  "demo_no_ignore = \<lparr>options = defaultOptions\<lparr>ignore := False\<rparr>\<rparr>"

definition demo_start :: "nat state" where
  "demo_start = \<lparr>engine = 3, trace = []\<rparr>"

text \<open>A rule registry that lists the directories loaded, and one directory that is absent.\<close>

definition demo_load :: "string \<Rightarrow> string list \<Rightarrow> (error + unit) \<times> string list" where
  "demo_load dir g =
     (if dir = ''no-such-rules'' then (Inl (Thrown ''ENOENT''), g) else (Inr (), g @ [dir]))"

definition demo_given :: GivenOptions where
  "demo_given =
     \<lparr>given_configFile = None, given_reset = None,
      given_rulePaths = Some [''rules'', ''no-such-rules'', ''more-rules''],
      given_useEslintrc = None, given_envs = None, given_globals = None, given_rules = None,
      given_ignore = None, given_ignorePath = None\<rparr>"

lemmas demo_defs =
  demo_env_def demo_cli_def demo_no_ignore_def demo_start_def demo_disk_def demo_verify_def
  demo_extname_def literal_match_def defaultOptions_def

lemmas run_defs =
  executeOnFiles_def callback_def processFile_def isExcluded_def notFound_def Let_def

section \<open>The exclusion matcher\<close>

lemma replace_first_only: "a \<notin> set xs \<Longrightarrow> replace a b (xs @ a # ys) = xs @ b # ys"
  by (induction xs) auto

lemma replace_absent: "a \<notin> set xs \<Longrightarrow> replace a b xs = xs"
  by (induction xs) auto

text \<open>
  A path with one backslash is matched as the same path written with a forward slash,
  whatever the matcher.
\<close>

lemma isExcluded_one_backslash:
  "CHR 0x5C \<notin> set xs \<Longrightarrow> CHR 0x5C \<notin> set ys \<Longrightarrow>
   isExcluded mm (xs @ CHR 0x5C # ys) exclude = isExcluded mm (xs @ CHR ''/'' # ys) exclude"
  by (simp add: isExcluded_def replace_first_only replace_absent)

text \<open>
  C2. The claim: \<open>isExcluded\<close> gives the same answer for a path written with
  backslashes, any number of them, as for the path written with forward slashes. The
  code replaces the first backslash only: with two of them, and a matcher that takes the
  backslash for an ordinary character, the path \<open>lib\util\x.js\<close> is not matched by the
  pattern \<open>lib/util/x.js\<close>, while \<open>lib/util/x.js\<close> is.
\<close>

theorem isExcluded_second_backslash:
  "isExcluded literal_match (''lib'' @ [CHR 0x5C] @ ''util'' @ [CHR 0x5C] @ ''x.js'')
     [''lib/util/x.js''] = Inr False
   \<and> isExcluded literal_match ''lib/util/x.js'' [''lib/util/x.js''] = Inr True
   \<and> replace (CHR 0x5C) (CHR ''/'') (''lib'' @ [CHR 0x5C] @ ''util'' @ [CHR 0x5C] @ ''x.js'')
       = ''lib/util'' @ [CHR 0x5C] @ ''x.js''"
  by (simp add: isExcluded_def literal_match_def)


lemma some_total:
  "\<forall>p\<in>set exclude. \<exists>b. mm name p = Inr b \<Longrightarrow>
   some mm name exclude = Inr (\<exists>p\<in>set exclude. mm name p = Inr True)"
  by (induction exclude) (auto split: sum.splits)






section \<open>The file processor\<close>

lemma processFile_shape:
  "processFile env opts f s = (out, s') \<Longrightarrow>
     (trace s' = trace s @ [ProcessFile f, Reset]
      \<or> trace s' = trace s @ [ProcessFile f, Reset, Verify f])
     \<and> (\<forall>r. out = Inr r \<longrightarrow> filePath r = f)"
  by (auto simp: processFile_def Let_def split: if_splits sum.splits prod.splits)

lemma processFile_missing:
  "\<not> fs_existsSync env (path_resolve env f) \<Longrightarrow>
   processFile env opts f s =
     (Inr \<lparr>filePath = f, messages = [notFound (path_resolve env f)]\<rparr>,
      \<lparr>engine = eslint_reset env (engine s), trace = trace s @ [ProcessFile f, Reset]\<rparr>)"
  by (simp add: processFile_def Let_def)

lemma processFile_outcome:
  assumes "reset_clears env"
  shows "fst (processFile env opts f s) = fst (processFile env opts f s')"
proof -
  have "fst (eslint_verify env (eslint_reset env (engine s)) src config f) =
        fst (eslint_verify env (eslint_reset env (engine s')) src config f)" for src config
    using assms unfolding reset_clears_def by blast
  then show ?thesis
    by (simp add: processFile_def Let_def case_prod_beta split: sum.splits)
qed

lemma processEach_filePaths:
  "processEach env opts xs acc s = (Inr new, s') \<Longrightarrow> map filePath new = map filePath acc @ xs"
proof (induction xs arbitrary: acc s)
  case Nil
  then show ?case by simp
next
  case (Cons x xs)
  obtain out s1 where p: "processFile env opts x s = (out, s1)"
    by (cases "processFile env opts x s")
  with Cons.prems obtain r where r: "out = Inr r"
    by (cases out) auto
  with p processFile_shape have "filePath r = x" by blast
  moreover from Cons.prems p r have "processEach env opts xs (acc @ [r]) s1 = (Inr new, s')"
    by simp
  ultimately show ?case using Cons.IH by fastforce
qed

section \<open>The traversal callback and its loop\<close>

lemma callback_acc:
  "callback env this ex files f acc s =
     (case callback env this ex files f [] s of
        (Inl e, s') \<Rightarrow> (Inl e, s')
      | (Inr new, s') \<Rightarrow> (Inr (acc @ new), s'))"
  by (auto simp: callback_def split: sum.splits prod.splits bool.splits)

lemma callback_filePath:
  "callback env this ex files f [] s = (Inr new, s') \<Longrightarrow> \<forall>r\<in>set new. filePath r = f"
  by (auto simp: callback_def dest: processFile_shape
      split: if_splits sum.splits prod.splits bool.splits)

lemma callback_excluded:
  "ignore (options this) \<Longrightarrow> isExcluded (minimatch env) p ex = Inr True \<Longrightarrow>
   path_extname env p = ''.js'' \<Longrightarrow>
   callback env this ex files p acc s =
     (Inr (if p \<in> set files then acc @ [\<lparr>filePath = p, messages = [ignoredMessage]\<rparr>] else acc), s)"
  by (simp add: callback_def)

lemma callback_other_ext:
  "path_extname env f \<noteq> ''.js'' \<Longrightarrow> callback env this ex files f acc s = (Inr acc, s)"
  by (simp add: callback_def)

lemma callback_processes:
  "path_extname env f = ''.js'' \<Longrightarrow>
   \<not> ignore (options this) \<or> isExcluded (minimatch env) f ex = Inr False \<Longrightarrow>
   callback env this ex files f acc s =
     (case processFile env (options this) f s of
        (Inl e, s') \<Rightarrow> (Inl e, s')
      | (Inr r, s') \<Rightarrow> (Inr (acc @ [r]), s'))"
  by (auto simp: callback_def)

lemma callback_trace:
  "callback env this ex files f acc s = (out, s') \<Longrightarrow>
     trace s' = trace s \<or> trace s' = trace s @ [ProcessFile f, Reset]
     \<or> trace s' = trace s @ [ProcessFile f, Reset, Verify f]"
  by (auto simp: callback_def dest: processFile_shape
      split: if_splits sum.splits prod.splits bool.splits)

lemma callback_trace_excluded:
  "ignore (options this) \<Longrightarrow> isExcluded (minimatch env) p ex = Inr True \<Longrightarrow>
   callback env this ex files p acc s = (out, s') \<Longrightarrow> trace s' = trace s"
  by (auto simp: callback_def split: if_splits)

lemma callback_outcome:
  assumes "reset_clears env"
  shows "fst (callback env this ex files f acc s) = fst (callback env this ex files f acc s')"
  using processFile_outcome [OF assms, of "options this" f s s']
  by (auto simp: callback_def split: sum.splits prod.splits bool.splits)

lemma forEach_file_acc:
  "forEach_file env this ex files xs acc s =
     (case forEach_file env this ex files xs [] s of
        (Inl e, s') \<Rightarrow> (Inl e, s')
      | (Inr new, s') \<Rightarrow> (Inr (acc @ new), s'))"
proof (induction xs arbitrary: acc s)
  case Nil
  show ?case by simp
next
  case (Cons x xs)
  show ?case
  proof (cases "callback env this ex files x [] s")
    case (Pair out s1)
    show ?thesis
    proof (cases out)
      case (Inl e)
      with Pair show ?thesis
        by (simp add: callback_acc [of env this ex files x acc s])
    next
      case (Inr new)
      with Pair show ?thesis
        using Cons.IH [of "acc @ new" s1] Cons.IH [of new s1]
        by (simp add: callback_acc [of env this ex files x acc s] split: sum.splits prod.splits)
    qed
  qed
qed

text \<open>
  A loop that returns splits into its first callback and the rest, each run on an empty
  array.
\<close>

lemma forEach_file_Cons:
  assumes "forEach_file env this ex files (x # xs) [] s = (Inr new, s')"
  obtains n1 s1 n2 where "callback env this ex files x [] s = (Inr n1, s1)"
    and "forEach_file env this ex files xs [] s1 = (Inr n2, s')" and "new = n1 @ n2"
proof -
  obtain out s1 where cb: "callback env this ex files x [] s = (out, s1)"
    by (cases "callback env this ex files x [] s")
  with assms obtain n1 where out: "out = Inr n1"
    by (cases out) auto
  obtain out2 s2 where rest: "forEach_file env this ex files xs [] s1 = (out2, s2)"
    by (cases "forEach_file env this ex files xs [] s1")
  from assms cb out rest obtain n2 where "out2 = Inr n2" "new = n1 @ n2" "s2 = s'"
    using forEach_file_acc [of env this ex files xs n1 s1]
    by (cases out2) auto
  with cb out rest that show ?thesis by blast
qed


lemma forEach_file_excluded_results:
  assumes "ignore (options this)" and "isExcluded (minimatch env) p ex = Inr True"
    and "path_extname env p = ''.js''"
  shows "forEach_file env this ex files xs [] s = (Inr new, s') \<Longrightarrow>
     filter (\<lambda>r. filePath r = p) new =
       (if p \<in> set files
        then replicate (count_list xs p) \<lparr>filePath = p, messages = [ignoredMessage]\<rparr> else [])"
proof (induction xs arbitrary: new s)
  case Nil
  then show ?case by simp
next
  case (Cons x xs)
  from Cons.prems obtain n1 s1 n2 where cb: "callback env this ex files x [] s = (Inr n1, s1)"
    and rest: "forEach_file env this ex files xs [] s1 = (Inr n2, s')" and new: "new = n1 @ n2"
    by (rule forEach_file_Cons)
  have ih: "filter (\<lambda>r. filePath r = p) n2 =
       (if p \<in> set files
        then replicate (count_list xs p) \<lparr>filePath = p, messages = [ignoredMessage]\<rparr> else [])"
    using Cons.IH rest by simp
  show ?case
  proof (cases "x = p")
    case True
    with cb assms
    have "n1 = (if p \<in> set files then [\<lparr>filePath = p, messages = [ignoredMessage]\<rparr>] else [])"
      by (auto simp: callback_excluded split: if_splits)
    with ih new True show ?thesis by simp
  next
    case False
    from cb have "\<forall>r\<in>set n1. filePath r = x"
      using callback_filePath by blast
    with False have "filter (\<lambda>r. filePath r = p) n1 = []"
      by (auto simp: filter_empty_conv)
    with ih new False show ?thesis by simp
  qed
qed

lemma forEach_file_trace_excluded:
  assumes "ignore (options this)" and "isExcluded (minimatch env) p ex = Inr True"
  shows "forEach_file env this ex files xs acc s = (out, s') \<Longrightarrow>
     \<exists>tr. trace s' = trace s @ tr \<and> ProcessFile p \<notin> set tr \<and> Verify p \<notin> set tr"
proof (induction xs arbitrary: acc s)
  case Nil
  then show ?case by simp
next
  case (Cons x xs)
  obtain o1 s1 where cb: "callback env this ex files x acc s = (o1, s1)"
    by (cases "callback env this ex files x acc s")
  have step: "\<exists>tr. trace s1 = trace s @ tr \<and> ProcessFile p \<notin> set tr \<and> Verify p \<notin> set tr"
  proof (cases "x = p")
    case True
    with cb assms have "trace s1 = trace s" by (simp add: callback_trace_excluded)
    then show ?thesis by simp
  next
    case False
    with callback_trace [OF cb] show ?thesis by auto
  qed
  show ?case
  proof (cases o1)
    case (Inl e)
    with cb Cons.prems step show ?thesis by auto
  next
    case (Inr acc')
    with cb Cons.prems have "forEach_file env this ex files xs acc' s1 = (out, s')" by simp
    from Cons.IH [OF this] step show ?thesis by auto
  qed
qed

lemma forEach_file_paired:
  "forEach_file env this ex files xs acc s = (out, s') \<Longrightarrow>
     \<exists>tr. trace s' = trace s @ tr \<and> (\<forall>fresh. reset_before_verify fresh tr)"
proof (induction xs arbitrary: acc s)
  case Nil
  then show ?case by simp
next
  case (Cons x xs)
  obtain o1 s1 where cb: "callback env this ex files x acc s = (o1, s1)"
    by (cases "callback env this ex files x acc s")
  have step: "\<exists>c. trace s1 = trace s @ c \<and>
      (\<forall>fresh t. (\<forall>b. reset_before_verify b t) \<longrightarrow> reset_before_verify fresh (c @ t))"
    using callback_trace [OF cb] by auto
  then obtain c where c: "trace s1 = trace s @ c"
      "\<forall>fresh t. (\<forall>b. reset_before_verify b t) \<longrightarrow> reset_before_verify fresh (c @ t)"
    by blast
  show ?case
  proof (cases o1)
    case (Inl e)
    with cb Cons.prems have "s' = s1" by simp
    moreover from c(2) have "\<forall>fresh. reset_before_verify fresh (c @ [])"
      by (metis reset_before_verify.simps(1))
    ultimately show ?thesis using c(1) by auto
  next
    case (Inr acc')
    with cb Cons.prems have "forEach_file env this ex files xs acc' s1 = (out, s')" by simp
    from Cons.IH [OF this] obtain t where t: "trace s' = trace s1 @ t"
      "\<forall>b. reset_before_verify b t"
      by blast
    from t c have "trace s' = trace s @ (c @ t)" "\<forall>fresh. reset_before_verify fresh (c @ t)"
      by simp_all
    then show ?thesis by blast
  qed
qed

lemma forEach_file_outcome:
  assumes "reset_clears env"
  shows "fst (forEach_file env this ex files xs acc s) =
         fst (forEach_file env this ex files xs acc s')"
proof (induction xs arbitrary: acc s s')
  case Nil
  show ?case by simp
next
  case (Cons x xs)
  obtain o1 s1 where a: "callback env this ex files x acc s = (o1, s1)"
    by (cases "callback env this ex files x acc s")
  obtain o2 s2 where b: "callback env this ex files x acc s' = (o2, s2)"
    by (cases "callback env this ex files x acc s'")
  from callback_outcome [OF assms, of this ex files x acc s s'] a b have eq: "o2 = o1" by simp
  show ?case
  proof (cases o1)
    case (Inl e)
    with a b eq show ?thesis by simp
  next
    case (Inr acc')
    with a b eq Cons.IH [of acc' s1 s2] show ?thesis by simp
  qed
qed

lemma forEach_file_extname:
  "forEach_file env this ex files xs [] s = (Inr new, s') \<Longrightarrow>
     \<forall>r\<in>set new. path_extname env (filePath r) = ''.js'' \<and> filePath r \<in> set xs"
proof (induction xs arbitrary: new s)
  case Nil
  then show ?case by simp
next
  case (Cons x xs)
  from Cons.prems obtain n1 s1 n2 where cb: "callback env this ex files x [] s = (Inr n1, s1)"
    and rest: "forEach_file env this ex files xs [] s1 = (Inr n2, s')" and new: "new = n1 @ n2"
    by (rule forEach_file_Cons)
  have "\<forall>r\<in>set n1. path_extname env (filePath r) = ''.js'' \<and> filePath r = x"
  proof (cases "path_extname env x = ''.js''")
    case True
    with callback_filePath cb show ?thesis by fastforce
  next
    case False
    with cb show ?thesis by (simp add: callback_other_ext)
  qed
  moreover have "\<forall>r\<in>set n2. path_extname env (filePath r) = ''.js'' \<and> filePath r \<in> set xs"
    using Cons.IH rest by simp
  ultimately show ?case using new by auto
qed

lemma forEach_file_no_ignore:
  "\<not> ignore (options this) \<Longrightarrow>
   forEach_file env this ex files xs acc s =
     processEach env (options this) (filter (\<lambda>f. path_extname env f = ''.js'') xs) acc s"
  by (induction xs arbitrary: acc s) (auto simp: callback_def split: sum.splits prod.splits)

section \<open>Runs\<close>

lemma executeOnFiles_loop:
  "forEach_file env this (getExclusions env (options this)) files (traverse env files) [] s
     = (out, s') \<Longrightarrow>
   executeOnFiles env this files s = (map_sum id (\<lambda>acc. \<lparr>results = acc\<rparr>) out, s')"
  by (cases out) (simp_all add: executeOnFiles_def)

lemma reported_extname:
  assumes "r \<in> set (reported (fst (executeOnFiles env this files s)))"
  shows "path_extname env (filePath r) = ''.js'' \<and> filePath r \<in> set (traverse env files)"
proof -
  obtain out s' where l:
    "forEach_file env this (getExclusions env (options this)) files (traverse env files) [] s
       = (out, s')"
    by (cases "forEach_file env this (getExclusions env (options this)) files (traverse env files) [] s")
  show ?thesis
  proof (cases out)
    case (Inl e)
    with executeOnFiles_loop [OF l] assms show ?thesis by (simp add: reported_def)
  next
    case (Inr new)
    with executeOnFiles_loop [OF l] assms have "r \<in> set new" by (simp add: reported_def)
    with forEach_file_extname l Inr show ?thesis by blast
  qed
qed

lemma executeOnFiles_outcome:
  assumes "reset_clears env"
  shows "fst (executeOnFiles env this files s) = fst (executeOnFiles env this files s')"
  using forEach_file_outcome [OF assms, of this "getExclusions env (options this)" files
      "traverse env files" "[]" s s']
  by (auto simp: executeOnFiles_def split: sum.splits prod.splits)


text \<open>
  C1, as the claim states it, fails on a path whose extension is not \<open>.js\<close>: the path
  \<open>notes.txt\<close> matches the exclusion set, exclusion is enabled, the path is named in
  the input paths and the walker reports it, yet the run returns no result at all.
\<close>

theorem excluded_explicit_counterexample:
  "ignore (options demo_cli)
   \<and> isExcluded (minimatch demo_env) ''notes.txt'' (getExclusions demo_env (options demo_cli))
       = Inr True
   \<and> ''notes.txt'' \<in> set [''notes.txt'']
   \<and> traverse demo_env [''notes.txt''] = [''notes.txt'']
   \<and> fst (executeOnFiles demo_env demo_cli [''notes.txt''] demo_start) = Inr \<lparr>results = []\<rparr>"
  by (simp add: run_defs demo_defs)

text \<open>
  C1, amended. Let exclusion be enabled and let \<open>p\<close> be a path with the extension
  \<open>.js\<close> that matches the exclusion set. Whether the run returns or throws, it neither
  enters \<open>processFile\<close> for \<open>p\<close> nor calls \<open>eslint.verify\<close> for it. In a run that
  returns, the results for \<open>p\<close> are: if \<open>p\<close> appears verbatim in the input paths, one
  result per time the walker reports \<open>p\<close> (so exactly one when it reports it once),
  each with the single non-fatal ignore message; and none if \<open>p\<close> was reached by
  directory expansion only.
\<close>

theorem excluded_reporting:
  assumes "ignore (options this)"
    and "isExcluded (minimatch env) p (getExclusions env (options this)) = Inr True"
    and "path_extname env p = ''.js''"
  shows "(\<exists>tr. trace (snd (executeOnFiles env this files s)) = trace s @ tr
            \<and> ProcessFile p \<notin> set tr \<and> Verify p \<notin> set tr)
         \<and> (\<forall>report. fst (executeOnFiles env this files s) = Inr report \<longrightarrow>
               filter (\<lambda>r. filePath r = p) (results report) =
                 (if p \<in> set files
                  then replicate (count_list (traverse env files) p)
                         \<lparr>filePath = p, messages = [ignoredMessage]\<rparr>
                  else []))"
proof -
  obtain out s' where l:
    "forEach_file env this (getExclusions env (options this)) files (traverse env files) [] s
       = (out, s')"
    by (cases "forEach_file env this (getExclusions env (options this)) files (traverse env files) [] s")
  note run = executeOnFiles_loop [OF l]
  from forEach_file_trace_excluded [OF assms(1,2) l] run
  have "\<exists>tr. trace (snd (executeOnFiles env this files s)) = trace s @ tr
            \<and> ProcessFile p \<notin> set tr \<and> Verify p \<notin> set tr"
    by simp
  moreover have "filter (\<lambda>r. filePath r = p) (results report) =
                 (if p \<in> set files
                  then replicate (count_list (traverse env files) p)
                         \<lparr>filePath = p, messages = [ignoredMessage]\<rparr>
                  else [])"
    if "fst (executeOnFiles env this files s) = Inr report" for report
  proof -
    from that run obtain new where "out = Inr new" "results report = new"
      by (cases out) auto
    with forEach_file_excluded_results [OF assms] l show ?thesis by simp
  qed
  ultimately show ?thesis by blast
qed

theorem excluded_reporting_witness:
  "ignore (options demo_cli)
   \<and> isExcluded (minimatch demo_env) ''c.js'' (getExclusions demo_env (options demo_cli)) = Inr True
   \<and> path_extname demo_env ''c.js'' = ''.js''
   \<and> (\<exists>tr. trace (snd (executeOnFiles demo_env demo_cli [''a.js'', ''b.js'', ''c.js''] demo_start))
              = trace demo_start @ tr
            \<and> ProcessFile ''c.js'' \<notin> set tr \<and> Verify ''c.js'' \<notin> set tr)
   \<and> filter (\<lambda>r. filePath r = ''c.js'')
        (reported (fst (executeOnFiles demo_env demo_cli [''a.js'', ''b.js'', ''c.js''] demo_start)))
       = [\<lparr>filePath = ''c.js'', messages = [ignoredMessage]\<rparr>]"
proof -
  let ?files = "[''a.js'', ''b.js'', ''c.js'']"
  have h1: "ignore (options demo_cli)"
    by (simp add: demo_defs)
  have h2: "isExcluded (minimatch demo_env) ''c.js'' (getExclusions demo_env (options demo_cli))
              = Inr True"
    by (simp add: run_defs demo_defs)
  have h3: "path_extname demo_env ''c.js'' = ''.js''"
    by (simp add: demo_defs)
  have "\<exists>report. fst (executeOnFiles demo_env demo_cli ?files demo_start) = Inr report"
    by (simp add: run_defs demo_defs)
  then obtain report where r: "fst (executeOnFiles demo_env demo_cli ?files demo_start) = Inr report"
    by blast
  note t = excluded_reporting [OF h1 h2 h3, of ?files demo_start]
  from t r have "filter (\<lambda>r. filePath r = ''c.js'') (results report) =
      (if ''c.js'' \<in> set ?files
       then replicate (count_list (traverse demo_env ?files) ''c.js'')
              \<lparr>filePath = ''c.js'', messages = [ignoredMessage]\<rparr>
       else [])"
    by blast
  also have "\<dots> = [\<lparr>filePath = ''c.js'', messages = [ignoredMessage]\<rparr>]"
    by (simp add: demo_env_def)
  finally have "filter (\<lambda>r. filePath r = ''c.js'')
        (reported (fst (executeOnFiles demo_env demo_cli ?files demo_start)))
       = [\<lparr>filePath = ''c.js'', messages = [ignoredMessage]\<rparr>]"
    using r by (simp add: reported_def)
  with h1 h2 h3 t show ?thesis by blast
qed

text \<open>
  C4, as the claim states it, fails for \<open>executeOnFiles\<close> on a missing file that the
  exclusion set matches: \<open>gone.js\<close> has the extension and no file exists there, and
  the one result the run reports carries the non-fatal ignore message, not a fatal one.
\<close>

theorem missing_excluded_counterexample:
  "path_extname demo_env ''gone.js'' = ''.js''
   \<and> \<not> fs_existsSync demo_env (path_resolve demo_env ''gone.js'')
   \<and> fst (executeOnFiles demo_env demo_cli [''gone.js''] demo_start)
       = Inr \<lparr>results = [\<lparr>filePath = ''gone.js'', messages = [ignoredMessage]\<rparr>]\<rparr>
   \<and> \<not> fatal ignoredMessage"
  by (simp add: run_defs demo_defs ignoredMessage_def)

text \<open>
  C4, amended. When no file exists at the resolved path, \<open>processFile\<close> returns one
  result whose path is the file name as given and whose single message is fatal and
  quotes the resolved path; it does not throw. When the path has the extension \<open>.js\<close>
  and is not excluded (exclusion is off, or the exclusion set does not match it), the
  callback appends that result and the loop goes on to the next file; and
  \<open>executeOnFiles\<close> on that single path, reported by the walker as it is, returns
  exactly that result.
\<close>

theorem missing_file:
  assumes "\<not> fs_existsSync env (path_resolve env filename)"
  shows "processFile env opts filename s =
           (Inr \<lparr>filePath = filename,
                 messages = [\<lparr>fatal = True,
                              message = ''Could not find file at '' @ [CHR 0x27]
                                @ path_resolve env filename @ [CHR 0x27] @ ''.''\<rparr>]\<rparr>,
            \<lparr>engine = eslint_reset env (engine s),
             trace = trace s @ [ProcessFile filename, Reset]\<rparr>)
         \<and> (path_extname env filename = ''.js''
              \<and> (\<not> ignore (options this)
                   \<or> isExcluded (minimatch env) filename ex = Inr False) \<longrightarrow>
             forEach_file env this ex files (filename # rest) acc s =
               forEach_file env this ex files rest
                 (acc @ [\<lparr>filePath = filename,
                          messages = [notFound (path_resolve env filename)]\<rparr>])
                 \<lparr>engine = eslint_reset env (engine s),
                  trace = trace s @ [ProcessFile filename, Reset]\<rparr>)
         \<and> (path_extname env filename = ''.js''
              \<and> (\<not> ignore (options this)
                   \<or> isExcluded (minimatch env) filename (getExclusions env (options this))
                       = Inr False)
              \<and> traverse env [filename] = [filename] \<longrightarrow>
             executeOnFiles env this [filename] s =
               (Inr \<lparr>results = [\<lparr>filePath = filename,
                                  messages = [notFound (path_resolve env filename)]\<rparr>]\<rparr>,
                \<lparr>engine = eslint_reset env (engine s),
                 trace = trace s @ [ProcessFile filename, Reset]\<rparr>))"
proof -
  note p = processFile_missing [OF assms]
  have a: "processFile env opts filename s =
           (Inr \<lparr>filePath = filename,
                 messages = [\<lparr>fatal = True,
                              message = ''Could not find file at '' @ [CHR 0x27]
                                @ path_resolve env filename @ [CHR 0x27] @ ''.''\<rparr>]\<rparr>,
            \<lparr>engine = eslint_reset env (engine s),
             trace = trace s @ [ProcessFile filename, Reset]\<rparr>)"
    using p [of opts s] by (simp add: notFound_def)
  have cb: "callback env this ex' files' filename acc' s =
      (Inr (acc' @ [\<lparr>filePath = filename, messages = [notFound (path_resolve env filename)]\<rparr>]),
       \<lparr>engine = eslint_reset env (engine s), trace = trace s @ [ProcessFile filename, Reset]\<rparr>)"
    if "path_extname env filename = ''.js''"
      and "\<not> ignore (options this) \<or> isExcluded (minimatch env) filename ex' = Inr False"
    for ex' files' acc'
    using callback_processes [OF that] p [of "options this" s] by simp
  have b: "forEach_file env this ex files (filename # rest) acc s =
           forEach_file env this ex files rest
             (acc @ [\<lparr>filePath = filename, messages = [notFound (path_resolve env filename)]\<rparr>])
             \<lparr>engine = eslint_reset env (engine s), trace = trace s @ [ProcessFile filename, Reset]\<rparr>"
    if "path_extname env filename = ''.js''"
      and "\<not> ignore (options this) \<or> isExcluded (minimatch env) filename ex = Inr False"
    using cb [OF that] by simp
  have c: "executeOnFiles env this [filename] s =
           (Inr \<lparr>results = [\<lparr>filePath = filename,
                              messages = [notFound (path_resolve env filename)]\<rparr>]\<rparr>,
            \<lparr>engine = eslint_reset env (engine s), trace = trace s @ [ProcessFile filename, Reset]\<rparr>)"
    if "path_extname env filename = ''.js''"
      and "\<not> ignore (options this)
           \<or> isExcluded (minimatch env) filename (getExclusions env (options this)) = Inr False"
      and "traverse env [filename] = [filename]"
    using cb [OF that(1,2)] that(3) by (simp add: executeOnFiles_def)
  from a b c show ?thesis by blast
qed

theorem missing_file_witness:
  "\<not> fs_existsSync demo_env (path_resolve demo_env ''missing.js'')
   \<and> path_extname demo_env ''missing.js'' = ''.js''
   \<and> isExcluded (minimatch demo_env) ''missing.js'' (getExclusions demo_env (options demo_cli))
       = Inr False
   \<and> traverse demo_env [''missing.js''] = [''missing.js'']
   \<and> fst (processFile demo_env (options demo_cli) ''missing.js'' demo_start) =
       Inr \<lparr>filePath = ''missing.js'',
            messages = [\<lparr>fatal = True,
                         message = ''Could not find file at '' @ [CHR 0x27]
                           @ ''/work/missing.js'' @ [CHR 0x27] @ ''.''\<rparr>]\<rparr>
   \<and> fst (executeOnFiles demo_env demo_cli [''missing.js''] demo_start) =
       Inr \<lparr>results = [\<lparr>filePath = ''missing.js'',
                         messages = [notFound ''/work/missing.js'']\<rparr>]\<rparr>"
proof -
  have h: "\<not> fs_existsSync demo_env (path_resolve demo_env ''missing.js'')"
    by (simp add: demo_defs)
  have e: "path_extname demo_env ''missing.js'' = ''.js''"
    by (simp add: demo_defs)
  have x: "isExcluded (minimatch demo_env) ''missing.js''
             (getExclusions demo_env (options demo_cli)) = Inr False"
    by (simp add: run_defs demo_defs)
  have w: "traverse demo_env [''missing.js''] = [''missing.js'']"
    by (simp add: demo_defs)
  have r: "path_resolve demo_env ''missing.js'' = ''/work/missing.js''"
    by (simp add: demo_defs)
  note t = missing_file [OF h, of "options demo_cli" demo_start demo_cli
      "getExclusions demo_env (options demo_cli)" "[''missing.js'']" "[]" "[]"]
  from t have "fst (processFile demo_env (options demo_cli) ''missing.js'' demo_start) =
       Inr \<lparr>filePath = ''missing.js'',
            messages = [\<lparr>fatal = True,
                         message = ''Could not find file at '' @ [CHR 0x27]
                           @ ''/work/missing.js'' @ [CHR 0x27] @ ''.''\<rparr>]\<rparr>"
    by (simp only: r fst_conv)
  moreover from t e x w
  have "fst (executeOnFiles demo_env demo_cli [''missing.js''] demo_start) =
       Inr \<lparr>results = [\<lparr>filePath = ''missing.js'',
                         messages = [notFound ''/work/missing.js'']\<rparr>]\<rparr>"
    by (simp only: r fst_conv simp_thms)
  ultimately show ?thesis using h e x w by blast
qed


text \<open>
  C5. With the file system and the collaborators fixed, and a linter that is
  deterministic once reset, a second call of \<open>executeOnFiles\<close> on the same instance
  with the same paths has the outcome of the first: the same report, results and
  messages in the same order, or the same exception. The second call starts from the
  linter state the first one left.
\<close>

theorem executeOnFiles_idempotent:
  assumes "reset_clears env"
  shows "fst (executeOnFiles env this files (snd (executeOnFiles env this files s))) =
         fst (executeOnFiles env this files s)"
  using assms by (rule executeOnFiles_outcome)

theorem executeOnFiles_idempotent_witness:
  "reset_clears demo_env
   \<and> fst (executeOnFiles demo_env demo_cli [''a.js'', ''b.js'', ''c.js'', ''lib'']
            (snd (executeOnFiles demo_env demo_cli [''a.js'', ''b.js'', ''c.js'', ''lib''] demo_start)))
       = fst (executeOnFiles demo_env demo_cli [''a.js'', ''b.js'', ''c.js'', ''lib''] demo_start)
   \<and> engine (snd (executeOnFiles demo_env demo_cli [''a.js'', ''b.js'', ''c.js'', ''lib''] demo_start))
       \<noteq> engine demo_start"
proof -
  have h: "reset_clears demo_env"
    by (simp add: reset_clears_def demo_env_def)
  have "engine (snd (executeOnFiles demo_env demo_cli [''a.js'', ''b.js'', ''c.js'', ''lib''] demo_start))
       \<noteq> engine demo_start"
    by (simp add: run_defs demo_defs)
  with h executeOnFiles_idempotent [OF h, of demo_cli "[''a.js'', ''b.js'', ''c.js'', ''lib'']" demo_start]
  show ?thesis by blast
qed

text \<open>
  C6. In the calls a run adds to the log, whether it returns or throws, every
  \<open>eslint.verify\<close> comes after an \<open>eslint.reset\<close> with no other \<open>verify\<close> in between.
\<close>

theorem reset_before_each_verify:
  "\<exists>tr. trace (snd (executeOnFiles env this files s)) = trace s @ tr
        \<and> reset_before_verify False tr"
proof -
  obtain out s' where l:
    "forEach_file env this (getExclusions env (options this)) files (traverse env files) [] s
       = (out, s')"
    by (cases "forEach_file env this (getExclusions env (options this)) files (traverse env files) [] s")
  from forEach_file_paired [OF l] obtain tr where "trace s' = trace s @ tr"
    "\<forall>fresh. reset_before_verify fresh tr"
    by blast
  with executeOnFiles_loop [OF l] show ?thesis by auto
qed

theorem reset_before_each_verify_witness:
  "trace (snd (executeOnFiles demo_env demo_cli [''a.js'', ''missing.js'', ''c.js'', ''b.js''] demo_start))
     = [ProcessFile ''a.js'', Reset, Verify ''a.js'', ProcessFile ''missing.js'', Reset,
        ProcessFile ''b.js'', Reset, Verify ''b.js'']
   \<and> (\<exists>tr. trace (snd (executeOnFiles demo_env demo_cli
                  [''a.js'', ''missing.js'', ''c.js'', ''b.js''] demo_start))
               = trace demo_start @ tr
            \<and> reset_before_verify False tr)"
proof -
  have "trace (snd (executeOnFiles demo_env demo_cli [''a.js'', ''missing.js'', ''c.js'', ''b.js''] demo_start))
     = [ProcessFile ''a.js'', Reset, Verify ''a.js'', ProcessFile ''missing.js'', Reset,
        ProcessFile ''b.js'', Reset, Verify ''b.js'']"
    by (simp add: run_defs demo_defs)
  with reset_before_each_verify [of demo_env demo_cli
      "[''a.js'', ''missing.js'', ''c.js'', ''b.js'']" demo_start]
  show ?thesis by blast
qed

text \<open>
  C7. A path whose extension is not exactly \<open>.js\<close> has no result among those a run
  hands back, whatever the walker reports and whatever the options.
\<close>

theorem extension_filter:
  assumes "path_extname env p \<noteq> ''.js''"
  shows "p \<notin> set (map filePath (reported (fst (executeOnFiles env this files s))))"
  using assms reported_extname by fastforce

theorem extension_filter_witness:
  "path_extname demo_env ''a.JS'' \<noteq> ''.js''
   \<and> traverse demo_env [''a.JS'', ''a.js''] = [''a.JS'', ''a.js'']
   \<and> reported (fst (executeOnFiles demo_env demo_cli [''a.JS'', ''a.js''] demo_start))
       = [\<lparr>filePath = ''a.js'', messages = []\<rparr>]
   \<and> ''a.JS'' \<notin> set (map filePath
         (reported (fst (executeOnFiles demo_env demo_cli [''a.JS'', ''a.js''] demo_start))))"
proof -
  have h: "path_extname demo_env ''a.JS'' \<noteq> ''.js''"
    by (simp add: demo_defs)
  have "traverse demo_env [''a.JS'', ''a.js''] = [''a.JS'', ''a.js'']"
    by (simp add: demo_defs)
  moreover have "reported (fst (executeOnFiles demo_env demo_cli [''a.JS'', ''a.js''] demo_start))
       = [\<lparr>filePath = ''a.js'', messages = []\<rparr>]"
    by (simp add: reported_def run_defs demo_defs)
  ultimately show ?thesis
    using h extension_filter [OF h, of demo_cli "[''a.JS'', ''a.js'']" demo_start] by blast
qed

text \<open>
  C8. With the option \<open>ignore\<close> off, a run is the File Processor applied in turn to
  every path the walker reports with the extension \<open>.js\<close>: neither the exclusion set nor
  the matcher has a part in it. A run that returns has one result for each such path,
  in the walker's order.
\<close>

theorem no_ignore_processes_all:
  assumes "\<not> ignore (options this)"
  shows "executeOnFiles env this files s =
           (case processEach env (options this)
                   (filter (\<lambda>f. path_extname env f = ''.js'') (traverse env files)) [] s of
              (Inl e, s') \<Rightarrow> (Inl e, s')
            | (Inr acc, s') \<Rightarrow> (Inr \<lparr>results = acc\<rparr>, s'))
         \<and> (\<forall>report. fst (executeOnFiles env this files s) = Inr report \<longrightarrow>
               map filePath (results report) =
                 filter (\<lambda>f. path_extname env f = ''.js'') (traverse env files))"
proof -
  let ?js = "filter (\<lambda>f. path_extname env f = ''.js'') (traverse env files)"
  have a: "executeOnFiles env this files s =
           (case processEach env (options this) ?js [] s of
              (Inl e, s') \<Rightarrow> (Inl e, s')
            | (Inr acc, s') \<Rightarrow> (Inr \<lparr>results = acc\<rparr>, s'))"
    by (simp add: executeOnFiles_def forEach_file_no_ignore [OF assms])
  have "map filePath (results report) = ?js"
    if "fst (executeOnFiles env this files s) = Inr report" for report
  proof -
    obtain out s' where p: "processEach env (options this) ?js [] s = (out, s')"
      by (cases "processEach env (options this) ?js [] s")
    with a that obtain new where "out = Inr new" "results report = new"
      by (cases out) auto
    with p processEach_filePaths [of env "options this" ?js "[]" s new s'] show ?thesis
      by simp
  qed
  with a show ?thesis by blast
qed

theorem no_ignore_processes_all_witness:
  "\<not> ignore (options demo_no_ignore)
   \<and> isExcluded (minimatch demo_env) ''c.js'' (getExclusions demo_env (options demo_no_ignore))
       = Inr True
   \<and> fst (executeOnFiles demo_env demo_no_ignore [''c.js'', ''lib'', ''notes.txt''] demo_start)
       = Inr \<lparr>results = [\<lparr>filePath = ''c.js'', messages = []\<rparr>,
                         \<lparr>filePath = ''lib/x.js'', messages = []\<rparr>,
                         \<lparr>filePath = ''lib/vendor.js'', messages = []\<rparr>]\<rparr>
   \<and> map filePath
        (reported (fst (executeOnFiles demo_env demo_no_ignore [''c.js'', ''lib'', ''notes.txt''] demo_start)))
       = filter (\<lambda>f. path_extname demo_env f = ''.js'')
           (traverse demo_env [''c.js'', ''lib'', ''notes.txt''])"
proof -
  let ?files = "[''c.js'', ''lib'', ''notes.txt'']"
  have h: "\<not> ignore (options demo_no_ignore)"
    by (simp add: demo_defs)
  have x: "isExcluded (minimatch demo_env) ''c.js'' (getExclusions demo_env (options demo_no_ignore))
       = Inr True"
    by (simp add: run_defs demo_defs)
  have r: "fst (executeOnFiles demo_env demo_no_ignore ?files demo_start)
       = Inr \<lparr>results = [\<lparr>filePath = ''c.js'', messages = []\<rparr>,
                         \<lparr>filePath = ''lib/x.js'', messages = []\<rparr>,
                         \<lparr>filePath = ''lib/vendor.js'', messages = []\<rparr>]\<rparr>"
    by (simp add: run_defs demo_defs)
  from no_ignore_processes_all [OF h, of demo_env ?files demo_start] r
  have "map filePath (results \<lparr>results = [\<lparr>filePath = ''c.js'', messages = []\<rparr>,
                         \<lparr>filePath = ''lib/x.js'', messages = []\<rparr>,
                         \<lparr>filePath = ''lib/vendor.js'', messages = []\<rparr>]\<rparr>)
       = filter (\<lambda>f. path_extname demo_env f = ''.js'') (traverse demo_env ?files)"
    by blast
  with r have "map filePath (reported (fst (executeOnFiles demo_env demo_no_ignore ?files demo_start)))
       = filter (\<lambda>f. path_extname demo_env f = ''.js'') (traverse demo_env ?files)"
    by (simp only: reported_def sum.case)
  with h x r show ?thesis by blast
qed

text \<open>
  C10. A path named in the input paths whose extension is not exactly \<open>.js\<close> is
  dropped without a trace: the callback returns the results and the state as it found
  them, without consulting the matcher or the file system, and no result of the run
  bears that path, be the file missing or excluded.
\<close>

theorem explicit_other_extension_dropped:
  assumes "p \<in> set files" and "path_extname env p \<noteq> ''.js''"
  shows "callback env this ex files p acc s = (Inr acc, s)
         \<and> p \<notin> set (map filePath (reported (fst (executeOnFiles env this files s'))))"
  using assms(2) callback_other_ext reported_extname by fastforce

theorem explicit_other_extension_dropped_witness:
  "''todo.md'' \<in> set [''notes.txt'', ''todo.md'']
   \<and> path_extname demo_env ''todo.md'' \<noteq> ''.js''
   \<and> \<not> fs_existsSync demo_env (path_resolve demo_env ''todo.md'')
   \<and> isExcluded (minimatch demo_env) ''notes.txt'' (getExclusions demo_env (options demo_cli))
       = Inr True
   \<and> fst (executeOnFiles demo_env demo_cli [''notes.txt'', ''todo.md''] demo_start)
       = Inr \<lparr>results = []\<rparr>
   \<and> callback demo_env demo_cli (getExclusions demo_env (options demo_cli))
        [''notes.txt'', ''todo.md''] ''todo.md'' [] demo_start = (Inr [], demo_start)
   \<and> ''todo.md'' \<notin> set (map filePath
         (reported (fst (executeOnFiles demo_env demo_cli [''notes.txt'', ''todo.md''] demo_start))))"
proof -
  have m: "''todo.md'' \<in> set [''notes.txt'', ''todo.md'']"
    by simp
  have e: "path_extname demo_env ''todo.md'' \<noteq> ''.js''"
    by (simp add: demo_defs)
  have "\<not> fs_existsSync demo_env (path_resolve demo_env ''todo.md'')"
    by (simp add: demo_defs)
  moreover have "isExcluded (minimatch demo_env) ''notes.txt''
      (getExclusions demo_env (options demo_cli)) = Inr True"
    by (simp add: run_defs demo_defs)
  moreover have "fst (executeOnFiles demo_env demo_cli [''notes.txt'', ''todo.md''] demo_start)
       = Inr \<lparr>results = []\<rparr>"
    by (simp add: run_defs demo_defs)
  ultimately show ?thesis
    using m e explicit_other_extension_dropped [OF m e, of demo_cli
        "getExclusions demo_env (options demo_cli)" "[]" demo_start demo_start]
    by blast
qed

section \<open>Construction\<close>

lemma forEach_load_fails:
  "fst (forEach_load load ds g) = Inl e \<longleftrightarrow>
     (\<exists>before d rest g1 g2. ds = before @ d # rest \<and>
        forEach_load load before g = (Inr (), g1) \<and> load d g1 = (Inl e, g2))"
proof (induction ds arbitrary: g)
  case Nil
  show ?case by simp
next
  case (Cons x xs)
  obtain o1 g1 where l: "load x g = (o1, g1)" by (cases "load x g")
  show ?case
  proof (cases o1)
    case (Inl e')
    show ?thesis
    proof
      assume "fst (forEach_load load (x # xs) g) = Inl e"
      with l Inl have "e' = e" by simp
      with l Inl have "x # xs = [] @ x # xs \<and> forEach_load load [] g = (Inr (), g)
          \<and> load x g = (Inl e, g1)"
        by simp
      then show "\<exists>before d rest g1 g2. x # xs = before @ d # rest \<and>
        forEach_load load before g = (Inr (), g1) \<and> load d g1 = (Inl e, g2)"
        by blast
    next
      assume "\<exists>before d rest g1 g2. x # xs = before @ d # rest \<and>
        forEach_load load before g = (Inr (), g1) \<and> load d g1 = (Inl e, g2)"
      then obtain before d rest ga gb where h: "x # xs = before @ d # rest"
        "forEach_load load before g = (Inr (), ga)" "load d ga = (Inl e, gb)" by blast
      show "fst (forEach_load load (x # xs) g) = Inl e"
      proof (cases before)
        case Nil
        with h l Inl show ?thesis by simp
      next
        case (Cons b bs)
        with h l Inl show ?thesis by simp
      qed
    qed
  next
    case (Inr u)
    have "fst (forEach_load load (x # xs) g) = Inl e \<longleftrightarrow> fst (forEach_load load xs g1) = Inl e"
      using l Inr by simp
    also have "\<dots> \<longleftrightarrow> (\<exists>before d rest ga gb. xs = before @ d # rest \<and>
        forEach_load load before g1 = (Inr (), ga) \<and> load d ga = (Inl e, gb))"
      by (rule Cons.IH)
    also have "\<dots> \<longleftrightarrow> (\<exists>before d rest ga gb. x # xs = before @ d # rest \<and>
        forEach_load load before g = (Inr (), ga) \<and> load d ga = (Inl e, gb))"
    proof
      assume "\<exists>before d rest ga gb. xs = before @ d # rest \<and>
        forEach_load load before g1 = (Inr (), ga) \<and> load d ga = (Inl e, gb)"
      then obtain before d rest ga gb where h: "xs = before @ d # rest"
        "forEach_load load before g1 = (Inr (), ga)" "load d ga = (Inl e, gb)" by blast
      with l Inr have "x # xs = (x # before) @ d # rest \<and>
        forEach_load load (x # before) g = (Inr (), ga) \<and> load d ga = (Inl e, gb)" by simp
      then show "\<exists>before d rest ga gb. x # xs = before @ d # rest \<and>
        forEach_load load before g = (Inr (), ga) \<and> load d ga = (Inl e, gb)" by blast
    next
      assume "\<exists>before d rest ga gb. x # xs = before @ d # rest \<and>
        forEach_load load before g = (Inr (), ga) \<and> load d ga = (Inl e, gb)"
      then obtain before d rest ga gb where h: "x # xs = before @ d # rest"
        "forEach_load load before g = (Inr (), ga)" "load d ga = (Inl e, gb)" by blast
      show "\<exists>before d rest ga gb. xs = before @ d # rest \<and>
        forEach_load load before g1 = (Inr (), ga) \<and> load d ga = (Inl e, gb)"
      proof (cases before)
        case Nil
        with h l Inr show ?thesis by simp
      next
        case (Cons b bs)
        with h l Inr have "xs = bs @ d # rest \<and> forEach_load load bs g1 = (Inr (), ga)
            \<and> load d ga = (Inl e, gb)"
          by simp
        then show ?thesis by blast
      qed
    qed
    finally show ?thesis .
  qed
qed

lemma new_CLIEngine_outcome:
  "fst (new_CLIEngine load given g) =
     (case fst (forEach_load load (rulePaths (assign defaultOptions given)) g) of
        Inl e \<Rightarrow> Inl e
      | Inr u \<Rightarrow> Inr \<lparr>options = assign defaultOptions given\<rparr>)"
  by (simp add: new_CLIEngine_def Let_def split: prod.splits sum.splits)

text \<open>
  C9. The constructor throws \<open>e\<close> exactly when, the directories before it in
  \<open>rulePaths\<close> having been loaded in order without error, loading a directory throws
  \<open>e\<close>: a load error reaches the caller, who gets no instance, and nothing else makes
  the constructor fail. Otherwise it returns the instance with the options given laid
  over the defaults.
\<close>

theorem construction_fails_on_rule_load:
  "(fst (new_CLIEngine load given g) = Inl e \<longleftrightarrow>
      (\<exists>before d rest g1 g2.
         rulePaths (assign defaultOptions given) = before @ d # rest \<and>
         forEach_load load before g = (Inr (), g1) \<and> load d g1 = (Inl e, g2)))
   \<and> ((\<exists>e'. fst (new_CLIEngine load given g) = Inl e')
        \<or> fst (new_CLIEngine load given g) = Inr \<lparr>options = assign defaultOptions given\<rparr>)"
proof -
  have "fst (new_CLIEngine load given g) = Inl e \<longleftrightarrow>
        fst (forEach_load load (rulePaths (assign defaultOptions given)) g) = Inl e"
    by (simp add: new_CLIEngine_outcome split: sum.splits)
  moreover have "(\<exists>e'. fst (new_CLIEngine load given g) = Inl e')
        \<or> fst (new_CLIEngine load given g) = Inr \<lparr>options = assign defaultOptions given\<rparr>"
    by (simp add: new_CLIEngine_outcome split: sum.splits)
  ultimately show ?thesis
    by (simp only: forEach_load_fails simp_thms)
qed

theorem construction_fails_on_rule_load_witness:
  "rulePaths (assign defaultOptions (Some demo_given)) = [''rules''] @ ''no-such-rules'' # [''more-rules'']
   \<and> forEach_load demo_load [''rules''] [] = (Inr (), [''rules''])
   \<and> demo_load ''no-such-rules'' [''rules''] = (Inl (Thrown ''ENOENT''), [''rules''])
   \<and> fst (new_CLIEngine demo_load (Some demo_given) []) = Inl (Thrown ''ENOENT'')
   \<and> new_CLIEngine demo_load None [] = (Inr \<lparr>options = defaultOptions\<rparr>, [])"
proof -
  have a: "rulePaths (assign defaultOptions (Some demo_given))
      = [''rules''] @ ''no-such-rules'' # [''more-rules'']"
    by (simp add: assign_def demo_given_def)
  have b: "forEach_load demo_load [''rules''] [] = (Inr (), [''rules''])"
    by (simp add: demo_load_def)
  have c: "demo_load ''no-such-rules'' [''rules''] = (Inl (Thrown ''ENOENT''), [''rules''])"
    by (simp add: demo_load_def)
  have d: "new_CLIEngine demo_load None [] = (Inr \<lparr>options = defaultOptions\<rparr>, [])"
    by (simp add: new_CLIEngine_def assign_def defaultOptions_def)
  from a b c have "\<exists>before d rest g1 g2.
         rulePaths (assign defaultOptions (Some demo_given)) = before @ d # rest \<and>
         forEach_load demo_load before [] = (Inr (), g1)
         \<and> demo_load d g1 = (Inl (Thrown ''ENOENT''), g2)"
    by blast
  with construction_fails_on_rule_load [of demo_load "Some demo_given" "[]" "Thrown ''ENOENT''"]
  have "fst (new_CLIEngine demo_load (Some demo_given) []) = Inl (Thrown ''ENOENT'')"
    by blast
  with a b c d show ?thesis by blast
qed

end
